theory Spec2Isabelle
  imports Complex_Main "HOL-Library.Multiset" "HOL-Library.Char_ord" "HOL-Library.List_Lexorder"
    "HOL-Library.Product_Lexorder" "HOL-Library.Log_Nat"
begin

section \<open>Exceptions\<close>

text \<open>
  The exceptions the scripts can raise in the modelled code. A \<^verbatim>\<open>KeyError\<close> carries the
  missing label (\<^verbatim>\<open>df['date']\<close>) or the list of missing labels (\<^verbatim>\<open>dropna(subset=...)\<close>);
  a \<^verbatim>\<open>ValueError\<close> carries a text that tells its cause (the offending cell of a date
  column, or a short description); it is not the wording of the library's message.
\<close>

datatype key_arg = Label string | Labels "string list"

datatype py_error = KeyError key_arg | ValueError string

section \<open>Binary64 arithmetic\<close>

text \<open>
  A Python float is an IEEE 754 binary64 number. A finite one is modelled by the rational
  number it denotes, and every operation computes the exact result and rounds it: \<open>fl\<close>
  rounds a rational to the nearest number with a significand of 53 bits, ties to the even
  significand. A result beyond the largest finite number becomes an infinity (\<open>round64\<close>).
  Gradual underflow (results below \<open>2 powi - 1022\<close> keep 53 bits here) and the sign of
  zero are not modelled.
\<close>

datatype fval = Fin rat | PInf | NInf | NaN

text \<open>\<open>ilog2 x\<close> is the exponent of \<open>x\<close>: the \<open>k\<close> with \<open>2 powi k \<le> \<bar>x\<bar> < 2 powi (k + 1)\<close>.\<close>

definition ilog2 :: "rat \<Rightarrow> int" where
  "ilog2 x =
     (let k = bitlen (fst (quotient_of \<bar>x\<bar>)) - bitlen (snd (quotient_of \<bar>x\<bar>))
      in if 2 powi k \<le> \<bar>x\<bar> then k else k - 1)"

text \<open>\<^verbatim>\<open>rint\<close>: the nearest integer, ties to the even one.\<close>

definition rint :: "rat \<Rightarrow> int" where
  "rint x =
     (let f = \<lfloor>x\<rfloor>; r = x - of_int f
      in if r < 1 / 2 then f
         else if r > 1 / 2 then f + 1
         else if even f then f else f + 1)"

definition fl :: "rat \<Rightarrow> rat" where
  "fl x = (if x = 0 then 0 else of_int (rint (x / 2 powi (ilog2 x - 52))) * 2 powi (ilog2 x - 52))"

definition round64 :: "rat \<Rightarrow> fval" where
  "round64 x =
     (if \<bar>fl x\<bar> < 2 ^ 1024 then Fin (fl x)
      else if 0 < x then PInf else NInf)"

section \<open>generate\_data.py: the synthetic data generator\<close>


record calendar_day =
  month :: nat
  weekday :: nat

record sample_row =
  row_date :: calendar_day
  state :: string
  total_enrollments :: int
  male_enrollments :: int
  female_enrollments :: int
  child_enrollments :: int
  adult_enrollments :: int
  senior_enrollments :: int
  center_type :: string









section \<open>analysis.py: expected enrolment, gap and percentage\<close>

text \<open>
  The columns \<^verbatim>\<open>Population\<close> and \<^verbatim>\<open>Enrolment\<close> are float64 columns of a data frame.
  A value is a finite number, an infinity or NaN; a missing cell of a numeric column is NaN.
  The element-wise operators of the frame compute in binary64 and follow IEEE 754 on the
  special values without raising.
\<close>

fun fsign :: "fval \<Rightarrow> rat" where
  "fsign (Fin a) = sgn a"
| "fsign PInf = 1"
| "fsign NInf = - 1"
| "fsign NaN = 0"

fun fmul :: "fval \<Rightarrow> fval \<Rightarrow> fval" where
  "fmul NaN y = NaN"
| "fmul x NaN = NaN"
| "fmul (Fin a) (Fin b) = round64 (a * b)"
| "fmul x y =
     (if fsign x * fsign y = 0 then NaN
      else if fsign x * fsign y > 0 then PInf else NInf)"

fun fsub :: "fval \<Rightarrow> fval \<Rightarrow> fval" where
  "fsub NaN y = NaN"
| "fsub x NaN = NaN"
| "fsub (Fin a) (Fin b) = round64 (a - b)"
| "fsub PInf PInf = NaN"
| "fsub NInf NInf = NaN"
| "fsub PInf y = PInf"
| "fsub NInf y = NInf"
| "fsub (Fin a) PInf = NInf"
| "fsub (Fin a) NInf = PInf"

fun fdiv :: "fval \<Rightarrow> fval \<Rightarrow> fval" where
  "fdiv NaN y = NaN"
| "fdiv x NaN = NaN"
| "fdiv (Fin a) (Fin b) =
     (if b \<noteq> 0 then round64 (a / b)
      else if a = 0 then NaN
      else if a > 0 then PInf else NInf)"
| "fdiv (Fin a) y = Fin 0"
| "fdiv PInf (Fin b) = (if b \<ge> 0 then PInf else NInf)"
| "fdiv NInf (Fin b) = (if b \<ge> 0 then NInf else PInf)"
| "fdiv x y = NaN"

text \<open>
  \<^verbatim>\<open>Series.round(d)\<close> is numpy's \<^verbatim>\<open>around\<close>: multiply by \<open>10 ^ d\<close>, round to the nearest
  integer with ties to the even one (\<^verbatim>\<open>rint\<close>), divide by \<open>10 ^ d\<close>; the product and the
  quotient are binary64 operations.
\<close>

fun frint :: "fval \<Rightarrow> fval" where
  "frint (Fin a) = Fin (of_int (rint a))"
| "frint x = x"

definition fround :: "nat \<Rightarrow> fval \<Rightarrow> fval" where
  "fround d x = fdiv (frint (fmul x (Fin (10 ^ d)))) (Fin (10 ^ d))"

record census_row =
  State :: "string option"
  Population :: fval
  Enrolment :: fval

record analysed_row = census_row +
  Expected_Children :: fval
  Enrolment_Gap :: fval
  Gap_Ratio :: fval
  Enrolment_Percentage :: fval

text \<open>\<^verbatim>\<open>df.dropna(inplace=True)\<close>: a row with any missing cell goes.\<close>

definition dropna_any :: "census_row list \<Rightarrow> census_row list" where
  "dropna_any df = filter (\<lambda>r. State r \<noteq> None \<and> Population r \<noteq> NaN \<and> Enrolment r \<noteq> NaN) df"

definition add_metrics :: "census_row \<Rightarrow> analysed_row" where
  "add_metrics r =
     (let expected = fmul (Population r) (Fin (fl (8 / 100)));
          gap = fsub expected (Enrolment r);
          ratio = fround 2 (fdiv gap expected);
          pct = fround 1 (fmul (fdiv (Enrolment r) expected) (Fin 100))
      in census_row.extend r
           (analysed_row.fields expected gap ratio pct))"

definition analysis :: "census_row list \<Rightarrow> analysed_row list" where
  "analysis df = map add_metrics (dropna_any df)"

section \<open>analyze\_enrollment.py: cleaning and state totals\<close>

text \<open>
  A data frame is its header and its rows. The columns have the types the script gives
  them: the date is text as read (or missing) and a timestamp after parsing; state and
  district are text or missing (an empty CSV field is read as missing); the pincode is a
  number or missing; an age column holds numbers, text or missing cells before the coercion.
  A field of a row whose column is not in the header is never read: the code raises first.
\<close>

datatype date_cell = NaT | Raw string | Timestamp nat nat nat

datatype num_cell = NA | Num int | Str string

record enrolment_row =
  date :: date_cell
  state :: "string option"
  district :: "string option"
  pincode :: "int option"
  age_0_5 :: num_cell
  age_5_17 :: num_cell
  age_18_greater :: num_cell

record dataframe =
  columns :: "string list"
  rows :: "enrolment_row list"

subsection \<open>Strings\<close>

definition py_isspace :: "char \<Rightarrow> bool" where
  "py_isspace c \<longleftrightarrow>
     c \<in> {CHR '' '', CHR 0x09, CHR 0x0A, CHR 0x0B, CHR 0x0C, CHR 0x0D,
          CHR 0x1C, CHR 0x1D, CHR 0x1E, CHR 0x1F}"

definition strip :: "string \<Rightarrow> string" where
  "strip s = rev (dropWhile py_isspace (rev (dropWhile py_isspace s)))"

definition is_digit :: "char \<Rightarrow> bool" where
  "is_digit c \<longleftrightarrow> CHR ''0'' \<le> c \<and> c \<le> CHR ''9''"

definition digit_val :: "char \<Rightarrow> nat" where
  "digit_val c = of_char c - 48"

definition parse_nat :: "string \<Rightarrow> nat option" where
  "parse_nat s =
     (if s \<noteq> [] \<and> list_all is_digit s
      then Some (foldl (\<lambda>n c. 10 * n + digit_val c) 0 s)
      else None)"

fun split_on :: "char \<Rightarrow> string \<Rightarrow> string list" where
  "split_on sep [] = [[]]"
| "split_on sep (c # cs) =
     (if c = sep then [] # split_on sep cs
      else (case split_on sep cs of
              [] \<Rightarrow> [[c]]
            | w # ws \<Rightarrow> (c # w) # ws))"

subsection \<open>Parsing the date column\<close>

text \<open>
  \<^verbatim>\<open>pd.to_datetime(df['date'], format='%d-%m-%Y')\<close>: day and month of one or two digits,
  a year of four digits, separated by hyphens; the day must exist in the month, and the year
  must lie in the range of a nanosecond timestamp (whole years 1678 to 2261 here). A missing
  cell stays missing. A value that does not match raises: the call has the default
  \<^verbatim>\<open>errors='raise'\<close>.
\<close>

definition is_leap :: "nat \<Rightarrow> bool" where
  "is_leap y \<longleftrightarrow> y mod 4 = 0 \<and> (y mod 100 \<noteq> 0 \<or> y mod 400 = 0)"

definition days_in_month :: "nat \<Rightarrow> nat \<Rightarrow> nat" where
  "days_in_month y m =
     (if m = 2 then (if is_leap y then 29 else 28)
      else if m \<in> {4, 6, 9, 11} then 30
      else 31)"

definition strptime_dmY :: "string \<Rightarrow> (nat \<times> nat \<times> nat) option" where
  "strptime_dmY s =
     (case split_on CHR ''-'' s of
        [d, m, y] \<Rightarrow>
          (if length d \<in> {1, 2} \<and> length m \<in> {1, 2} \<and> length y = 4 then
             (case (parse_nat d, parse_nat m, parse_nat y) of
                (Some dd, Some mm, Some yy) \<Rightarrow>
                  (if 1 \<le> mm \<and> mm \<le> 12 \<and> 1 \<le> dd \<and> dd \<le> days_in_month yy mm
                      \<and> 1678 \<le> yy \<and> yy \<le> 2261
                   then Some (yy, mm, dd) else None)
              | _ \<Rightarrow> None)
           else None)
      | _ \<Rightarrow> None)"

fun to_datetime_cell :: "date_cell \<Rightarrow> py_error + date_cell" where
  "to_datetime_cell NaT = Inr NaT"
| "to_datetime_cell (Timestamp y m d) = Inr (Timestamp y m d)"
| "to_datetime_cell (Raw s) =
     (case strptime_dmY s of
        None \<Rightarrow> Inl (ValueError s)
      | Some (y, m, d) \<Rightarrow> Inr (Timestamp y m d))"

fun to_datetime :: "date_cell list \<Rightarrow> py_error + date_cell list" where
  "to_datetime [] = Inr []"
| "to_datetime (c # cs) =
     (case to_datetime_cell c of
        Inl e \<Rightarrow> Inl e
      | Inr t \<Rightarrow> (case to_datetime cs of Inl e \<Rightarrow> Inl e | Inr ts \<Rightarrow> Inr (t # ts)))"

subsection \<open>Coercing the age columns\<close>

text \<open>
  \<^verbatim>\<open>pd.to_numeric(df[col], errors='coerce')\<close>, cell by cell: a number stays, a missing cell
  stays missing, text that is a number becomes that number and any other text becomes
  missing. The columns hold enrolment counts: the text recognised as a number is an integer
  literal with an optional sign.
\<close>

definition parse_int :: "string \<Rightarrow> int option" where
  "parse_int s =
     (case s of
        [] \<Rightarrow> None
      | c # cs \<Rightarrow>
          if c = CHR ''-'' then map_option (\<lambda>n. - int n) (parse_nat cs)
          else if c = CHR ''+'' then map_option int (parse_nat cs)
          else map_option int (parse_nat s))"

fun to_numeric :: "num_cell \<Rightarrow> num_cell" where
  "to_numeric NA = NA"
| "to_numeric (Num n) = Num n"
| "to_numeric (Str s) = (case parse_int s of None \<Rightarrow> NA | Some n \<Rightarrow> Num n)"

definition numeric_cols :: "string list" where
  "numeric_cols = [''age_0_5'', ''age_5_17'', ''age_18_greater'']"

definition coerce_col :: "string \<Rightarrow> enrolment_row \<Rightarrow> enrolment_row" where
  "coerce_col col r =
     (if col = ''age_0_5'' then r\<lparr>age_0_5 := to_numeric (age_0_5 r)\<rparr>
      else if col = ''age_5_17'' then r\<lparr>age_5_17 := to_numeric (age_5_17 r)\<rparr>
      else if col = ''age_18_greater'' then r\<lparr>age_18_greater := to_numeric (age_18_greater r)\<rparr>
      else r)"

subsection \<open>clean\_data\<close>

text \<open>
  \<^verbatim>\<open>df.dropna(subset=['state', 'district', 'pincode'] + numeric_cols, how='all')\<close> raises a
  \<^verbatim>\<open>KeyError\<close> listing the labels of the subset that the header lacks, and otherwise drops
  the rows in which every cell of the subset is missing.
\<close>

definition dropna_subset :: "string list" where
  "dropna_subset = [''state'', ''district'', ''pincode''] @ numeric_cols"

definition all_missing :: "enrolment_row \<Rightarrow> bool" where
  "all_missing r \<longleftrightarrow>
     state r = None \<and> district r = None \<and> pincode r = None \<and>
     age_0_5 r = NA \<and> age_5_17 r = NA \<and> age_18_greater r = NA"

definition clean_data :: "dataframe \<Rightarrow> py_error + dataframe" where
  "clean_data df =
     (let cols = map strip (columns df) in
      if ''date'' \<notin> set cols then Inl (KeyError (Label ''date''))
      else
        (case to_datetime (map date (rows df)) of
           Inl e \<Rightarrow> Inl e
         | Inr dates \<Rightarrow>
             (let rows1 = map (\<lambda>(r, d). r\<lparr>date := d\<rparr>) (zip (rows df) dates);
                  rows2 = fold (\<lambda>col rs. if col \<in> set cols then map (coerce_col col) rs else rs)
                            numeric_cols rows1;
                  absent = filter (\<lambda>c. c \<notin> set cols) dropna_subset
              in if absent \<noteq> [] then Inl (KeyError (Labels absent))
                 else Inr \<lparr>columns = cols, rows = filter (\<lambda>r. \<not> all_missing r) rows2\<rparr>)))"

subsection \<open>Totals\<close>

text \<open>
  \<^verbatim>\<open>df[age_columns].sum(axis=1)\<close> skips missing cells: a missing cell adds nothing. After
  \<open>clean_data\<close> every age cell is a number or missing.
\<close>

fun num_value :: "num_cell \<Rightarrow> int" where
  "num_value (Num n) = n"
| "num_value c = 0"

definition row_total :: "enrolment_row \<Rightarrow> int" where
  "row_total r = num_value (age_0_5 r) + num_value (age_5_17 r) + num_value (age_18_greater r)"

text \<open>
  \<^verbatim>\<open>groupby(key)[col].sum()\<close>: one entry per distinct key, in ascending key order, holding
  the sum of the column over the rows with that key. Rows whose key is missing belong to no
  group (the \<^verbatim>\<open>dropna=True\<close> default of \<^verbatim>\<open>groupby\<close>).
\<close>

definition groupby_sum :: "('k::linorder option \<times> int) list \<Rightarrow> ('k \<times> int) list" where
  "groupby_sum kvs =
     map (\<lambda>k. (k, sum_list (map snd (filter (\<lambda>kv. fst kv = Some k) kvs))))
       (sort (remdups (List.map_filter fst kvs)))"

text \<open>
  The scripts group the total enrolments by state, by date and by month. The grouping is the
  same for every key column: \<open>key\<close> reads the key of a row, \<open>None\<close> when it is missing.
\<close>

definition groupby_total :: "(enrolment_row \<Rightarrow> 'k::linorder option) \<Rightarrow> enrolment_row list \<Rightarrow> ('k \<times> int) list" where
  "groupby_total key df_rows = groupby_sum (map (\<lambda>r. (key r, row_total r)) df_rows)"



subsection \<open>Sorting a series by its values\<close>



definition sort_values_desc :: "(int list \<Rightarrow> nat list) \<Rightarrow> ('k \<times> int) list \<Rightarrow> ('k \<times> int) list" where
  "sort_values_desc argsort series =
     rev (map (\<lambda>i. rev series ! i) (argsort (map snd (rev series))))"

text \<open>
  \<^verbatim>\<open>head(n)\<close> keeps the first \<open>n\<close> entries, and all but the last \<open>- n\<close> when \<open>n\<close> is
  negative.
\<close>

definition head :: "int \<Rightarrow> 'a list \<Rightarrow> 'a list" where
  "head n xs = (if 0 \<le> n then take (nat n) xs else take (length xs - nat (- n)) xs)"

text \<open>
  A routine that sorts the positions by value and, among equal values, by position: it
  keeps equal values in their original order.
\<close>

definition stable_argsort :: "int list \<Rightarrow> nat list" where
  "stable_argsort vs = map snd (sort (zip vs [0..<length vs]))"

text \<open>
  The state totals of \<open>analyze_enrollment\<close>:
  \<^verbatim>\<open>df.groupby('state')['total_enrollments'].sum().sort_values(ascending=False).head(10)\<close>.
\<close>

definition state_totals :: "(int list \<Rightarrow> nat list) \<Rightarrow> enrolment_row list \<Rightarrow> (string \<times> int) list" where
  "state_totals argsort df_rows = head 10 (sort_values_desc argsort (groupby_total state df_rows))"

subsection \<open>main\<close>

text \<open>
  The body of \<open>main\<close> runs inside one \<^verbatim>\<open>try\<close> whose only handler is
  \<^verbatim>\<open>except Exception as e\<close>; the handler prints \<^verbatim>\<open>An error occurred:\<close> followed by
  \<^verbatim>\<open>str(e)\<close>. The model takes the outcome of \<open>load_data\<close> as its input and follows
  the body through \<open>clean_data\<close>: either the handler runs for the exception raised so far,
  or the body goes on with the cleaned frame. What the body does after the cleaning
  (sorting, the analysis, the plots) is not part of the model of \<open>main\<close>.
\<close>

datatype outcome = Goes_on_with dataframe | An_error_occurred py_error

definition except_Exception :: "py_error \<Rightarrow> outcome" where
  "except_Exception e = An_error_occurred e"

definition main :: "py_error + dataframe \<Rightarrow> outcome" where
  "main loaded =
     (case loaded of
        Inl e \<Rightarrow> except_Exception e
      | Inr df \<Rightarrow>
          (case clean_data df of
             Inl e \<Rightarrow> except_Exception e
           | Inr cleaned \<Rightarrow> Goes_on_with cleaned))"

subsection \<open>What a successful cleaning does to one row\<close>

text \<open>
  These three definitions restate the effect of \<open>clean_data\<close> row by row; the lemmas
  \<open>clean_data_ok\<close> and \<open>clean_data_Inr\<close> below prove that \<open>clean_data\<close> computes
  exactly this whenever it returns a frame.
\<close>

definition date_fails :: "date_cell \<Rightarrow> bool" where
  "date_fails c = (case to_datetime_cell c of Inl e \<Rightarrow> True | Inr t \<Rightarrow> False)"

definition parsed :: "date_cell \<Rightarrow> date_cell" where
  "parsed c = (case to_datetime_cell c of Inl e \<Rightarrow> c | Inr t \<Rightarrow> t)"

definition cleaned_row :: "enrolment_row \<Rightarrow> enrolment_row" where
  "cleaned_row r =
     r\<lparr>date := parsed (date r),
       age_0_5 := to_numeric (age_0_5 r),
       age_5_17 := to_numeric (age_5_17 r),
       age_18_greater := to_numeric (age_18_greater r)\<rparr>"

section \<open>dashboard.py: the top states\<close>



section \<open>app.py: the moving averages of plot\_forecasting\<close>

text \<open>
  \<^verbatim>\<open>daily_ts.rolling(window=w, min_periods=m).mean()\<close> on a series without missing
  values (the series has been forward-filled). The library keeps a running count and sum:
  position \<open>i\<close> has the window \<open>[i + 1 - w, i + 1)\<close> cut at zero; the first position, and any
  position whose window starts at or after the previous window's end, sums its window afresh;
  every other position removes the values that left the window and adds the ones that
  entered. The mean is missing (\<open>None\<close>) when fewer than \<open>m\<close> values are in the window.
  The script calls it with \<open>w = 7\<close> and \<open>w = 30\<close>, and \<open>m = 1\<close>, on a daily series
  of at least 30 points (it returns before the call on a shorter one).
\<close>

definition add_mean :: "rat \<Rightarrow> nat \<times> rat \<Rightarrow> nat \<times> rat" where
  "add_mean v st = (fst st + 1, snd st + v)"

definition remove_mean :: "rat \<Rightarrow> nat \<times> rat \<Rightarrow> nat \<times> rat" where
  "remove_mean v st = (fst st - 1, snd st - v)"

definition calc_mean :: "nat \<Rightarrow> nat \<times> rat \<Rightarrow> rat option" where
  "calc_mean minp st =
     (if fst st \<ge> minp \<and> fst st > 0 then Some (snd st / of_nat (fst st)) else None)"

definition window_start :: "nat \<Rightarrow> nat \<Rightarrow> nat" where
  "window_start w i = (i + 1) - w"

definition window_end :: "nat \<Rightarrow> nat" where
  "window_end i = i + 1"

definition slice :: "'a list \<Rightarrow> nat \<Rightarrow> nat \<Rightarrow> 'a list" where
  "slice xs a b = take (b - a) (drop a xs)"

fun roll_mean :: "nat \<Rightarrow> nat \<Rightarrow> rat list \<Rightarrow> nat list \<Rightarrow> nat \<times> rat \<Rightarrow> rat option list" where
  "roll_mean w minp vals [] st = []"
| "roll_mean w minp vals (i # rest) st =
     (let s = window_start w i; e = window_end i;
          st' = (if i = 0 \<or> s \<ge> window_end (i - 1)
                 then fold add_mean (slice vals s e) (0, 0)
                 else fold add_mean (slice vals (window_end (i - 1)) e)
                        (fold remove_mean (slice vals (window_start w (i - 1)) s) st))
      in calc_mean minp st' # roll_mean w minp vals rest st')"

text \<open>The constructor of the rolling window rejects \<open>min_periods > window\<close>.\<close>

definition rolling_mean :: "nat \<Rightarrow> nat \<Rightarrow> rat list \<Rightarrow> py_error + rat option list" where
  "rolling_mean w minp vals =
     (if minp > w then Inl (ValueError ''min_periods must be <= window'')
      else Inr (roll_mean w minp vals [0..<length vals] (0, 0)))"

definition ma7 :: "rat list \<Rightarrow> py_error + rat option list" where
  "ma7 daily_ts = rolling_mean 7 1 daily_ts"

definition ma30 :: "rat list \<Rightarrow> py_error + rat option list" where
  "ma30 daily_ts = rolling_mean 30 1 daily_ts"


section \<open>Example inputs\<close>

definition full_header :: "string list" where
  "full_header = [''date'', ''state'', ''district'', ''pincode'', ''age_0_5'', ''age_5_17'', ''age_18_greater'']"

text \<open>
  The two rows of the specification's example: region A with 5 enrolments of age 0 to 5,
  and a row with an empty region and 10 enrolments. Every other field is missing.
\<close>

definition region_rows :: "enrolment_row list" where
  "region_rows =
     [\<lparr>date = NaT, state = Some ''A'', district = None, pincode = None,
        age_0_5 = Num 5, age_5_17 = NA, age_18_greater = NA\<rparr>,
      \<lparr>date = NaT, state = None, district = None, pincode = None,
        age_0_5 = Num 10, age_5_17 = NA, age_18_greater = NA\<rparr>]"

definition region_frame :: dataframe where
  "region_frame = \<lparr>columns = full_header, rows = region_rows\<rparr>"

text \<open>A frame whose second row has a date in another format.\<close>

definition bad_date_frame :: dataframe where
  "bad_date_frame =
     \<lparr>columns = full_header,
      rows = [\<lparr>date = Raw ''01-02-2024'', state = Some ''A'', district = Some ''D'', pincode = Some 560001,
               age_0_5 = Num 5, age_5_17 = Num 1, age_18_greater = Num 2\<rparr>,
             \<lparr>date = Raw ''2024/02/01'', state = Some ''B'', district = Some ''E'', pincode = Some 560002,
               age_0_5 = Num 7, age_5_17 = Num 1, age_18_greater = Num 1\<rparr>]\<rparr>"

text \<open>A frame with one row: a state, and three age cells that are not numbers.\<close>

definition no_bucket_frame :: dataframe where
  "no_bucket_frame =
     \<lparr>columns = full_header,
      rows = [\<lparr>date = Raw ''01-02-2024'', state = Some ''A'', district = None, pincode = None,
               age_0_5 = Str ''x'', age_5_17 = Str ''n/a'', age_18_greater = Str ''-''\<rparr>]\<rparr>"

text \<open>The frame of the example without its column \<^verbatim>\<open>age_0_5\<close>.\<close>

definition missing_column_frame :: dataframe where
  "missing_column_frame =
     \<lparr>columns = [''date'', ''state'', ''district'', ''pincode'', ''age_5_17'', ''age_18_greater''],
      rows = region_rows\<rparr>"




section \<open>Properties of the binary64 rounding\<close>

lemma rint_bounds: "\<bar>of_int (rint x) - x\<bar> \<le> 1 / 2"
proof -
  define r where "r = x - of_int \<lfloor>x\<rfloor>"
  have r: "0 \<le> r" "r < 1"
    unfolding r_def by linarith+
  consider "r < 1 / 2" | "r > 1 / 2" | "r = 1 / 2"
    by linarith
  then show ?thesis
  proof cases
    case 1
    then have "rint x = \<lfloor>x\<rfloor>"
      by (simp add: rint_def Let_def r_def)
    then show ?thesis using r 1 by (simp add: r_def)
  next
    case 2
    then have "rint x = \<lfloor>x\<rfloor> + 1"
      by (simp add: rint_def Let_def r_def)
    then show ?thesis using r 2 by (simp add: r_def)
  next
    case 3
    then have "rint x = \<lfloor>x\<rfloor> \<or> rint x = \<lfloor>x\<rfloor> + 1"
      by (simp add: rint_def Let_def r_def)
    then show ?thesis using 3 by (auto simp: r_def)
  qed
qed

lemma rint_of_int: "rint (of_int k) = k"
  by (simp add: rint_def)

lemma p2_add: "(2 :: rat) powi (a + b) = 2 powi a * 2 powi b"
  by (simp add: power_int_add)

lemma p2_diff: "(2 :: rat) powi (a - b) = 2 powi a / 2 powi b"
  by (simp add: power_int_diff)

lemma p2_pos: "0 < (2 :: rat) powi a"
  by simp

lemma p2_mono: "a \<le> b \<Longrightarrow> (2 :: rat) powi a \<le> 2 powi b"
  by (rule power_int_increasing) simp_all

lemma p2_less_iff: "(2 :: rat) powi a < 2 powi b \<longleftrightarrow> a < b"
proof
  assume l: "(2 :: rat) powi a < 2 powi b"
  show "a < b"
  proof (rule ccontr)
    assume "\<not> a < b"
    then have "(2 :: rat) powi b \<le> 2 powi a"
      by (intro p2_mono) simp
    with l show False by linarith
  qed
next
  assume "a < b"
  then show "(2 :: rat) powi a < 2 powi b"
    by (rule power_int_strict_increasing) simp
qed

lemma ilog2_bounds:
  assumes "x \<noteq> 0"
  shows "2 powi (ilog2 x) \<le> \<bar>x\<bar>" and "\<bar>x\<bar> < 2 powi (ilog2 x + 1)"
proof -
  obtain p q where pq: "quotient_of \<bar>x\<bar> = (p, q)"
    by (cases "quotient_of \<bar>x\<bar>") auto
  have q: "0 < q"
    using pq by (rule quotient_of_denom_pos)
  have x: "\<bar>x\<bar> = of_int p / of_int q"
    using pq by (rule quotient_of_div)
  have p: "0 < p"
  proof -
    have "0 < of_int p / (of_int q :: rat)"
      using assms x by simp
    then show ?thesis
      using q by (simp add: zero_less_divide_iff)
  qed
  define k where "k = bitlen p - bitlen q"
  have bp: "1 \<le> bitlen p" and bq: "1 \<le> bitlen q"
    using p q by (simp_all add: bitlen_alt_def)
  have "2 ^ nat (bitlen p - 1) \<le> p" "p < 2 ^ nat (bitlen p)"
      "2 ^ nat (bitlen q - 1) \<le> q" "q < 2 ^ nat (bitlen q)"
    using bitlen_bounds [OF p] bitlen_bounds [OF q] by simp_all
  then have "(of_int (2 ^ nat (bitlen p - 1)) :: rat) \<le> of_int p"
      "(of_int p :: rat) < of_int (2 ^ nat (bitlen p))"
      "(of_int (2 ^ nat (bitlen q - 1)) :: rat) \<le> of_int q"
      "(of_int q :: rat) < of_int (2 ^ nat (bitlen q))"
    by (simp_all only: of_int_le_iff of_int_less_iff)
  then have b: "(2 :: rat) powi (bitlen p - 1) \<le> of_int p"
      "(of_int p :: rat) < 2 powi (bitlen p)"
      "(2 :: rat) powi (bitlen q - 1) \<le> of_int q"
      "(of_int q :: rat) < 2 powi (bitlen q)"
    using bp bq by (simp_all add: power_int_nonneg_exp)
  have up: "\<bar>x\<bar> < 2 powi (k + 1)"
  proof -
    have "of_int p / (of_int q :: rat) < 2 powi (bitlen p) / 2 powi (bitlen q - 1)"
      using b q p by (intro frac_less) simp_all
    also have "\<dots> = 2 powi (bitlen p - (bitlen q - 1))"
      by (simp only: p2_diff)
    also have "bitlen p - (bitlen q - 1) = k + 1"
      by (simp add: k_def)
    finally show ?thesis by (simp add: x)
  qed
  have lo: "2 powi (k - 1) < \<bar>x\<bar>"
  proof -
    have "(2 :: rat) powi (bitlen p - 1) / 2 powi (bitlen q) < of_int p / of_int q"
      using b q p by (intro frac_less2) simp_all
    moreover have "(2 :: rat) powi (bitlen p - 1) / 2 powi (bitlen q) = 2 powi (bitlen p - 1 - bitlen q)"
      by (simp only: p2_diff)
    moreover have "bitlen p - 1 - bitlen q = k - 1"
      by (simp add: k_def)
    ultimately show ?thesis by (simp add: x)
  qed
  have i: "ilog2 x = (if 2 powi k \<le> \<bar>x\<bar> then k else k - 1)"
    by (simp add: ilog2_def Let_def pq k_def)
  show "2 powi (ilog2 x) \<le> \<bar>x\<bar>"
    using lo by (simp add: i)
  show "\<bar>x\<bar> < 2 powi (ilog2 x + 1)"
    using up by (auto simp: i)
qed

lemma ilog2_unique:
  assumes "2 powi k \<le> \<bar>x\<bar>" "\<bar>x\<bar> < 2 powi (k + 1)"
  shows "ilog2 x = k"
proof -
  have "x \<noteq> 0"
  proof
    assume "x = 0"
    with assms(1) have "(2 :: rat) powi k \<le> 0" by simp
    with p2_pos [of k] show False by linarith
  qed
  note b = ilog2_bounds [OF this]
  have "(2 :: rat) powi (ilog2 x) < 2 powi (k + 1)"
    using b(1) assms(2) by linarith
  then have 1: "ilog2 x < k + 1"
    by (simp only: p2_less_iff)
  have "(2 :: rat) powi k < 2 powi (ilog2 x + 1)"
    using b(2) assms(1) by linarith
  then have 2: "k < ilog2 x + 1"
    by (simp only: p2_less_iff)
  from 1 2 show ?thesis by simp
qed

lemma fl_0 [simp]: "fl 0 = 0"
  by (simp add: fl_def)

lemma fl_error:
  "\<bar>fl x - x\<bar> \<le> \<bar>x\<bar> / 2 ^ 53"
proof (cases "x = 0")
  case True
  then show ?thesis by simp
next
  case False
  define e where "e = ilog2 x - 52"
  define y where "y = x / 2 powi e"
  have x: "x = y * 2 powi e"
    by (simp add: y_def)
  have f: "fl x = of_int (rint y) * 2 powi e"
    using False by (simp add: fl_def e_def y_def)
  have "fl x - x = of_int (rint y) * 2 powi e - y * 2 powi e"
    by (simp add: f x [symmetric])
  then have "fl x - x = (of_int (rint y) - y) * 2 powi e"
    by (simp add: algebra_simps)
  then have "\<bar>fl x - x\<bar> = \<bar>of_int (rint y) - y\<bar> * 2 powi e"
    by (simp add: abs_mult)
  also have "\<dots> \<le> (1 / 2) * 2 powi e"
    using rint_bounds [of y] by (intro mult_right_mono) simp_all
  also have "\<dots> = 2 powi (ilog2 x) / 2 ^ 53"
  proof -
    have "(2 :: rat) powi e = 2 powi (ilog2 x) / 2 powi 52"
      unfolding e_def by (rule p2_diff)
    then show ?thesis by simp
  qed
  also have "\<dots> \<le> \<bar>x\<bar> / 2 ^ 53"
    using ilog2_bounds(1) [OF False] by (intro divide_right_mono) simp_all
  finally show ?thesis .
qed




lemma fl_neg:
  assumes "x < 0"
  shows "fl x < 0"
proof -
  have "\<bar>fl x - x\<bar> \<le> \<bar>x\<bar> / 2 ^ 53"
    by (rule fl_error)
  moreover have "\<bar>x\<bar> / 2 ^ 53 < \<bar>x\<bar>"
    using assms by simp
  ultimately show ?thesis
    using assms by linarith
qed

lemma fl_pos:
  assumes "0 < x"
  shows "0 < fl x"
proof -
  have "\<bar>fl x - x\<bar> \<le> \<bar>x\<bar> / 2 ^ 53"
    by (rule fl_error)
  moreover have "\<bar>x\<bar> / 2 ^ 53 < \<bar>x\<bar>"
    using assms by simp
  ultimately show ?thesis
    using assms by linarith
qed

lemma fl_representable:
  assumes "\<bar>n\<bar> \<le> 2 ^ 53"
  shows "fl (of_int n * 2 powi e) = of_int n * 2 powi e"
proof (cases "n = 0")
  case True
  then show ?thesis by simp
next
  case False
  define z :: rat where "z = of_int n * 2 powi e"
  have z0: "z \<noteq> 0"
    using False by (simp add: z_def)
  define k where "k = ilog2 z"
  have az: "\<bar>z\<bar> = of_int \<bar>n\<bar> * 2 powi e"
    by (simp add: z_def abs_mult)
  have n1: "1 \<le> \<bar>n\<bar>"
    using False by simp
  have lo: "2 powi e \<le> \<bar>z\<bar>"
  proof -
    have "1 * 2 powi e \<le> (of_int \<bar>n\<bar> :: rat) * 2 powi e"
      using n1 by (intro mult_right_mono) simp_all
    then show ?thesis by (simp add: az)
  qed
  have hi: "\<bar>z\<bar> \<le> 2 powi (e + 53)"
  proof -
    have "(of_int \<bar>n\<bar> :: rat) \<le> of_int (2 ^ 53)"
      using assms by (simp only: of_int_le_iff)
    then have "(of_int \<bar>n\<bar> :: rat) * 2 powi e \<le> 2 ^ 53 * 2 powi e"
      by (intro mult_right_mono) simp_all
    also have "\<dots> = 2 powi (e + 53)"
      by (simp add: p2_add)
    finally show ?thesis by (simp add: az)
  qed
  have kh: "k \<le> e + 53"
  proof -
    have "(2 :: rat) powi k < 2 powi (e + 53 + 1)"
    proof -
      have "(2 :: rat) powi k \<le> \<bar>z\<bar>"
        using ilog2_bounds(1) [OF z0] by (simp add: k_def)
      also have "\<dots> \<le> 2 powi (e + 53)" by (rule hi)
      also have "\<dots> < 2 powi (e + 53 + 1)"
        by (simp only: p2_less_iff; simp)
      finally show ?thesis .
    qed
    then show ?thesis by (simp only: p2_less_iff; simp)
  qed
  have "\<exists>m :: int. z / 2 powi (k - 52) = of_int m"
  proof (cases "k \<le> e + 52")
    case True
    then have c: "0 \<le> e - (k - 52)" by simp
    have "z / 2 powi (k - 52) = of_int n * (2 powi e / 2 powi (k - 52))"
      by (simp add: z_def)
    also have "2 powi e / 2 powi (k - 52) = (2 :: rat) powi (e - (k - 52))"
      by (simp only: p2_diff)
    also have "\<dots> = 2 ^ nat (e - (k - 52))"
      using c by (simp add: power_int_nonneg_exp)
    also have "of_int n * (2 :: rat) ^ nat (e - (k - 52)) = of_int (n * 2 ^ nat (e - (k - 52)))"
      by simp
    finally show ?thesis by blast
  next
    case False
    then have k: "k = e + 53"
      using kh by simp
    have "2 powi (e + 53) \<le> \<bar>z\<bar>"
      using ilog2_bounds(1) [OF z0] by (simp add: k_def [symmetric] k)
    with hi have "\<bar>z\<bar> = 2 powi (e + 53)"
      by linarith
    then have zz: "z = 2 powi (e + 53) \<or> z = - (2 powi (e + 53))"
      by (auto simp: abs_if split: if_splits)
    have "(2 :: rat) powi (e + 53) / 2 powi (k - 52) = 2 powi (e + 53 - (k - 52))"
      by (simp only: p2_diff)
    also have "e + 53 - (k - 52) = 52"
      by (simp add: k)
    finally have "(2 :: rat) powi (e + 53) / 2 powi (k - 52) = of_int (2 ^ 52)"
      by simp
    with zz show ?thesis
      by (metis divide_minus_left of_int_minus)
  qed
  then obtain m :: int where m: "z / 2 powi (k - 52) = of_int m"
    by blast
  have "fl z = of_int (rint (z / 2 powi (k - 52))) * 2 powi (k - 52)"
    using z0 by (simp add: fl_def k_def)
  also have "\<dots> = of_int m * 2 powi (k - 52)"
    by (simp add: m rint_of_int)
  also have "\<dots> = z"
    using m [symmetric] by simp
  finally show ?thesis
    by (simp add: z_def)
qed

lemma fl_form: "\<exists>n e. fl x = of_int n * 2 powi e \<and> \<bar>n\<bar> \<le> 2 ^ 53"
proof (cases "x = 0")
  case True
  have "fl x = of_int 0 * 2 powi 0" "\<bar>0 :: int\<bar> \<le> 2 ^ 53"
    using True by simp_all
  then show ?thesis by blast
next
  case False
  define e where "e = ilog2 x - 52"
  define y where "y = x / 2 powi e"
  have f: "fl x = of_int (rint y) * 2 powi e"
    using False by (simp add: fl_def e_def y_def)
  have "\<bar>y\<bar> = \<bar>x\<bar> / 2 powi e"
    by (simp add: y_def abs_divide)
  also have "\<dots> < 2 powi (ilog2 x + 1) / 2 powi e"
    using ilog2_bounds(2) [OF False] by (intro divide_strict_right_mono) simp_all
  also have "\<dots> = 2 powi (ilog2 x + 1 - e)"
    by (simp only: p2_diff)
  also have "ilog2 x + 1 - e = 53"
    by (simp add: e_def)
  finally have y: "\<bar>y\<bar> < 2 ^ 53"
    by simp
  have "\<bar>(of_int (rint y) :: rat)\<bar> \<le> \<bar>of_int (rint y) - y\<bar> + \<bar>y\<bar>"
    by linarith
  also have "\<dots> < 1 / 2 + 2 ^ 53"
    using rint_bounds [of y] y by linarith
  finally have "(of_int \<bar>rint y\<bar> :: rat) < of_int (2 ^ 53 + 1)"
    by simp
  then have "\<bar>rint y\<bar> < 2 ^ 53 + 1"
    by (simp only: of_int_less_iff)
  then have "\<bar>rint y\<bar> \<le> 2 ^ 53"
    by simp
  with f show ?thesis by blast
qed

lemma fl_idem: "fl (fl x) = fl x"
proof -
  obtain n e where "fl x = of_int n * 2 powi e" "\<bar>n\<bar> \<le> 2 ^ 53"
    using fl_form by blast
  then show ?thesis
    using fl_representable [of n e] by simp
qed


lemma rint_unique:
  assumes "\<bar>of_int n - y\<bar> < 1 / 2"
  shows "rint y = n"
proof -
  have "\<bar>(of_int (rint y) :: rat) - of_int n\<bar> \<le> \<bar>of_int (rint y) - y\<bar> + \<bar>of_int n - y\<bar>"
    by linarith
  also have "\<dots> < 1 / 2 + 1 / 2"
    using rint_bounds [of y] assms by linarith
  finally have "(of_int \<bar>rint y - n\<bar> :: rat) < of_int 1"
    by simp
  then have "\<bar>rint y - n\<bar> < 1"
    by (simp only: of_int_less_iff)
  then show ?thesis by simp
qed

text \<open>
  A certificate for one rounding: the exponent \<open>k\<close> of the argument and the integer
  significand \<open>n\<close> nearest to the scaled argument.
\<close>

lemma fl_eqI:
  assumes "2 powi k \<le> \<bar>a\<bar>" "\<bar>a\<bar> < 2 powi (k + 1)"
    and "\<bar>of_int n - a / 2 powi (k - 52)\<bar> < 1 / 2"
    and "r = of_int n * 2 powi (k - 52)"
  shows "fl a = r"
proof -
  have k: "ilog2 a = k"
    using assms(1,2) by (rule ilog2_unique)
  have a: "a \<noteq> 0"
  proof
    assume "a = 0"
    with assms(1) have "(2 :: rat) powi k \<le> 0" by simp
    with p2_pos [of k] show False by linarith
  qed
  have "rint (a / 2 powi (k - 52)) = n"
    using assms(3) by (rule rint_unique)
  then show ?thesis
    using a by (simp add: fl_def k assms(4))
qed



section \<open>Properties of the synthetic data generator\<close>

subsection \<open>The float literals of the script\<close>








subsection \<open>Bounds on the base value\<close>








subsection \<open>The two splits\<close>







subsection \<open>One row at the edge of the ranges\<close>

















section \<open>Properties of the derived metrics of analysis.py\<close>

lemma fl_abs_le: "\<bar>fl x\<bar> \<le> 2 * \<bar>x\<bar>"
proof -
  have "\<bar>x\<bar> / 2 ^ 53 \<le> \<bar>x\<bar>"
    by (simp add: divide_le_eq)
  then show ?thesis
    using fl_error [of x] by linarith
qed

lemma round64_Fin:
  assumes "\<bar>x\<bar> \<le> 2 ^ 1000"
  shows "round64 x = Fin (fl x)"
proof -
  have "\<bar>fl x\<bar> \<le> 2 * 2 ^ 1000"
    using fl_abs_le [of x] assms by linarith
  also have "\<dots> < (2 :: rat) ^ 1024"
    by simp
  finally show ?thesis
    by (simp add: round64_def)
qed

lemma round64_0 [simp]: "round64 0 = Fin 0"
  by (simp add: round64_def)

lemma round64_neg:
  assumes "x < 0"
  shows "round64 x = NInf \<or> (\<exists>y<0. round64 x = Fin y)"
  using assms fl_neg [OF assms] by (simp add: round64_def)

lemma round64_pos:
  assumes "0 < x"
  shows "round64 x = PInf \<or> (\<exists>y>0. round64 x = Fin y)"
  using assms fl_pos [OF assms] by (simp add: round64_def)

lemma fround_special [simp]:
  "fround d NaN = NaN" "fround d PInf = PInf" "fround d NInf = NInf"
  by (simp_all add: fround_def)

lemma rint_abs_le: "\<bar>of_int (rint x) :: rat\<bar> \<le> \<bar>x\<bar> + 1 / 2"
  using rint_bounds [of x] by linarith

lemma fround_Fin:
  assumes "\<bar>x\<bar> \<le> 2 ^ 900" and "1 \<le> m" and "m \<le> 2 ^ 10" and "m = 10 ^ d"
  shows "fround d (Fin x) = Fin (fl (of_int (rint (fl (x * m))) / m))"
proof -
  have "\<bar>x * m\<bar> \<le> 2 ^ 900 * 2 ^ 10"
    unfolding abs_mult using assms(1-3) by (intro mult_mono) simp_all
  then have b: "\<bar>x * m\<bar> \<le> 2 ^ 910"
    by simp
  then have 1: "round64 (x * m) = Fin (fl (x * m))"
    by (intro round64_Fin) simp
  have "\<bar>fl (x * m)\<bar> \<le> 2 ^ 911"
    using fl_abs_le [of "x * m"] b by simp
  then have k: "\<bar>of_int (rint (fl (x * m))) :: rat\<bar> \<le> 2 ^ 912"
    using rint_abs_le [of "fl (x * m)"] by simp
  have "\<bar>of_int (rint (fl (x * m))) / m\<bar> \<le> \<bar>of_int (rint (fl (x * m))) :: rat\<bar>"
    unfolding abs_divide using assms(2) by (simp add: divide_le_eq mult_le_cancel_left1)
  then have 2: "round64 (of_int (rint (fl (x * m))) / m) = Fin (fl (of_int (rint (fl (x * m))) / m))"
    using k by (intro round64_Fin) simp
  have "m \<noteq> 0"
    using assms(2) by simp
  then show ?thesis
    unfolding fround_def assms(4) [symmetric] by (simp add: 1 2)
qed

lemma fl_lit_8:
  assumes "x = 2 / 25"
  shows "fl x = 5764607523034235 / 2 ^ 56"
  unfolding assms
  by (rule fl_eqI [where k = "- 4" and n = "5764607523034235"]) simp_all

lemma fl_expected_1000:
  assumes "x = 720575940379279375 / 2 ^ 53"
  shows "fl x = 80"
  unfolding assms
  by (rule fl_eqI [where k = "6" and n = "5629499534213120"]) simp_all







lemma fl_gap_1000_34:
  assumes "x = 46"
  shows "fl x = 46"
  unfolding assms
  by (rule fl_eqI [where k = "5" and n = "6473924464345088"]) simp_all

lemma fl_ratio_1000_34:
  assumes "x = 23 / 40"
  shows "fl x = 2589569785738035 / 2 ^ 52"
  unfolding assms
  by (rule fl_eqI [where k = "- 1" and n = "5179139571476070"]) simp_all

lemma fl_ratio_1000_34_scaled:
  assumes "x = 64739244643450875 / 2 ^ 50"
  shows "fl x = 8092405580431359 / 2 ^ 47"
  unfolding assms
  by (rule fl_eqI [where k = "5" and n = "8092405580431359"]) simp_all

lemma fl_ratio_1000_34_rounded:
  assumes "x = 57 / 100"
  shows "fl x = 5134103575202365 / 2 ^ 53"
  unfolding assms
  by (rule fl_eqI [where k = "- 1" and n = "5134103575202365"]) simp_all

lemma fl_share_1000_34:
  assumes "x = 17 / 40"
  shows "fl x = 7656119366529843 / 2 ^ 54"
  unfolding assms
  by (rule fl_eqI [where k = "- 2" and n = "7656119366529843"]) simp_all

lemma fl_pct_1000_34:
  assumes "x = 191402984163246075 / 2 ^ 52"
  shows "fl x = 85 / 2 ^ 1"
  unfolding assms
  by (rule fl_eqI [where k = "5" and n = "5981343255101440"]) simp_all

lemma fl_pct_1000_34_scaled:
  assumes "x = 425"
  shows "fl x = 425"
  unfolding assms
  by (rule fl_eqI [where k = "8" and n = "7476679068876800"]) simp_all

lemma fl_pct_1000_34_rounded:
  assumes "x = 85 / 2 ^ 1"
  shows "fl x = 85 / 2 ^ 1"
  unfolding assms
  by (rule fl_eqI [where k = "5" and n = "5981343255101440"]) simp_all

lemma literal_8_bounds: "1 / 16 \<le> fl (8 / 100)" "fl (8 / 100) \<le> 1 / 8"
  by (simp_all add: fl_lit_8)

lemma expected_bounds:
  assumes "1 \<le> p" "p \<le> 2 ^ 64"
  shows "1 / 32 \<le> fl (p * fl (8 / 100))" and "fl (p * fl (8 / 100)) \<le> 2 ^ 62"
    and "\<bar>p * fl (8 / 100)\<bar> \<le> 2 ^ 1000"
    and "\<bar>fl (p * fl (8 / 100)) - p * (8 / 100)\<bar> \<le> p / 2 ^ 54"
proof -
  define c where "c = fl (8 / 100)"
  have c: "1 / 16 \<le> c" "c \<le> 1 / 8"
    unfolding c_def by (rule literal_8_bounds)+
  have lo: "1 / 16 \<le> p * c"
    using mult_mono [of 1 p "1 / 16" c] assms c by simp
  have "p * c \<le> 2 ^ 64 * (1 / 8)"
    using assms c by (intro mult_mono) simp_all
  then have hi: "p * c \<le> 2 ^ 61"
    by simp
  have e: "\<bar>fl (p * c) - p * c\<bar> \<le> (p * c) / 2 ^ 53"
    using fl_error [of "p * c"] lo by simp
  have s: "(p * c) / 2 ^ 53 \<le> (p * c) / 2"
    using lo by (intro divide_left_mono) simp_all
  show "1 / 32 \<le> fl (p * fl (8 / 100))"
    using e s lo unfolding c_def by linarith
  have "fl (p * c) \<le> p * c + (p * c) / 2"
    using e s by linarith
  also have "\<dots> \<le> 2 ^ 61 + 2 ^ 61 / 2"
    using hi by (intro add_mono divide_right_mono) simp_all
  also have "\<dots> \<le> (2 :: rat) ^ 62"
    by simp
  finally show "fl (p * fl (8 / 100)) \<le> 2 ^ 62"
    unfolding c_def .
  show "\<bar>p * fl (8 / 100)\<bar> \<le> 2 ^ 1000"
  proof -
    have "(2 :: rat) ^ 61 \<le> 2 ^ 1000"
      by (intro power_increasing) simp_all
    then show ?thesis
      using lo hi unfolding c_def by linarith
  qed
  have "\<bar>c - 8 / 100\<bar> \<le> \<bar>8 / 100\<bar> / 2 ^ 53"
    unfolding c_def by (rule fl_error)
  then have "\<bar>c - 8 / 100\<bar> \<le> 1 / 2 ^ 56"
    by simp
  then have "p * \<bar>c - 8 / 100\<bar> \<le> p * (1 / 2 ^ 56)"
    using assms by (intro mult_left_mono) simp_all
  moreover have "p * c - p * (8 / 100) = p * (c - 8 / 100)"
    by (simp only: right_diff_distrib)
  then have "p * \<bar>c - 8 / 100\<bar> = \<bar>p * c - p * (8 / 100)\<bar>"
    using assms(1) by (simp only: abs_mult abs_of_nonneg)
  ultimately have d: "\<bar>p * c - p * (8 / 100)\<bar> \<le> p / 2 ^ 56"
    by simp
  have "(p * c) / 2 ^ 53 \<le> (p * (1 / 8)) / 2 ^ 53"
    using assms c by (intro divide_right_mono mult_left_mono) simp_all
  then have "(p * c) / 2 ^ 53 \<le> p / 2 ^ 56"
    by simp
  then have "\<bar>fl (p * c) - p * (8 / 100)\<bar> \<le> p / 2 ^ 56 + p / 2 ^ 56"
    using e d by linarith
  also have "\<dots> \<le> p / 2 ^ 54"
    using assms by simp
  finally show "\<bar>fl (p * fl (8 / 100)) - p * (8 / 100)\<bar> \<le> p / 2 ^ 54"
    unfolding c_def .
qed

lemma quotient_bound:
  fixes e g :: rat
  assumes "1 / 32 \<le> e" "\<bar>g\<bar> \<le> 2 ^ 70"
  shows "\<bar>g / e\<bar> \<le> 2 ^ 75"
proof -
  have e: "0 < e"
    using assms(1) by simp
  have "\<bar>g\<bar> \<le> 2 ^ 70 * (32 * e)"
    using assms mult_mono [of "\<bar>g\<bar>" "2 ^ 70" 1 "32 * e"] by simp
  then have "\<bar>g\<bar> / e \<le> 2 ^ 75"
    using e by (simp add: divide_le_eq)
  then show ?thesis
    using e by (simp add: abs_divide)
qed

lemma add_metrics_fields:
  assumes "Population r = Fin p" "Enrolment r = Fin t"
    and "1 \<le> p" "p \<le> 2 ^ 64" "0 \<le> t" "t \<le> 2 ^ 64"
    and "e = fl (p * fl (8 / 100))" "g = fl (e - t)"
  shows "Expected_Children (add_metrics r) = Fin e"
    and "Enrolment_Gap (add_metrics r) = Fin g"
    and "Gap_Ratio (add_metrics r) = Fin (fl (of_int (rint (fl (fl (g / e) * 100))) / 100))"
    and "Enrolment_Percentage (add_metrics r)
           = Fin (fl (of_int (rint (fl (fl (fl (t / e) * 100) * 10))) / 10))"
proof -
  have eb: "1 / 32 \<le> e" "e \<le> 2 ^ 62"
    unfolding assms(7) using expected_bounds(1,2) [OF assms(3,4)] by simp_all
  have e0: "e \<noteq> 0"
    using eb(1) by simp
  have "round64 (p * fl (8 / 100)) = Fin e"
    unfolding assms(7) using expected_bounds(3) [OF assms(3,4)] by (rule round64_Fin)
  then have 1: "round64 (p * fl (2 / 25)) = Fin e"
    by simp
  have "\<bar>e - t\<bar> \<le> 2 ^ 65"
    using eb assms(5,6) by simp
  then have gb0: "\<bar>e - t\<bar> \<le> 2 ^ 1000" "\<bar>g\<bar> \<le> 2 ^ 70"
    using fl_abs_le [of "e - t"] unfolding assms(8) by simp_all
  have 2: "round64 (e - t) = Fin g"
    unfolding assms(8) using gb0(1) by (rule round64_Fin)
  have qb: "\<bar>g / e\<bar> \<le> 2 ^ 75"
    using eb(1) gb0(2) by (rule quotient_bound)
  then have 3: "round64 (g / e) = Fin (fl (g / e))"
    by (intro round64_Fin) simp
  have "\<bar>fl (g / e)\<bar> \<le> 2 ^ 76"
    using fl_abs_le [of "g / e"] qb by simp
  then have 4: "fround 2 (Fin (fl (g / e)))
      = Fin (fl (of_int (rint (fl (fl (g / e) * 100))) / 100))"
    by (intro fround_Fin) simp_all
  have "\<bar>t\<bar> \<le> 2 ^ 70"
    using assms(5,6) by simp
  then have hb: "\<bar>t / e\<bar> \<le> 2 ^ 75"
    using eb(1) by (intro quotient_bound)
  then have 5: "round64 (t / e) = Fin (fl (t / e))"
    by (intro round64_Fin) simp
  have h: "\<bar>fl (t / e)\<bar> \<le> 2 ^ 76"
    using fl_abs_le [of "t / e"] hb by simp
  then have "\<bar>fl (t / e) * 100\<bar> \<le> 2 ^ 76 * 2 ^ 7"
    unfolding abs_mult by (intro mult_mono) simp_all
  then have h100: "\<bar>fl (t / e) * 100\<bar> \<le> 2 ^ 83"
    by simp
  then have 6: "round64 (fl (t / e) * 100) = Fin (fl (fl (t / e) * 100))"
    by (intro round64_Fin) simp
  have "\<bar>fl (fl (t / e) * 100)\<bar> \<le> 2 ^ 84"
    using fl_abs_le [of "fl (t / e) * 100"] h100 by simp
  then have 7: "fround 1 (Fin (fl (fl (t / e) * 100)))
      = Fin (fl (of_int (rint (fl (fl (fl (t / e) * 100) * 10))) / 10))"
    by (intro fround_Fin) simp_all
  show "Expected_Children (add_metrics r) = Fin e"
    by (simp add: add_metrics_def Let_def census_row.defs analysed_row.defs assms(1) 1)
  show "Enrolment_Gap (add_metrics r) = Fin g"
    by (simp add: add_metrics_def Let_def census_row.defs analysed_row.defs assms(1,2) 1 2)
  show "Gap_Ratio (add_metrics r) = Fin (fl (of_int (rint (fl (fl (g / e) * 100))) / 100))"
    by (simp add: add_metrics_def Let_def census_row.defs analysed_row.defs assms(1,2) 1 2 3 4 e0)
  show "Enrolment_Percentage (add_metrics r)
           = Fin (fl (of_int (rint (fl (fl (fl (t / e) * 100) * 10))) / 10))"
    by (simp add: add_metrics_def Let_def census_row.defs analysed_row.defs assms(1,2) 1 5 6 7 e0
        del: One_nat_def)
qed



text \<open>
  A population of 1000 with 34 enrolled: the gap is 46 and the binary64 quotient 46 / 80 is
  just below 0.575, so its hundredfold is just below 57.5 and the gap ratio is the binary64
  number nearest 0.57.
\<close>

lemma example_gap_ratio_below_tie:
  "Gap_Ratio (add_metrics \<lparr>State = Some ''Goa'', Population = Fin 1000, Enrolment = Fin 34\<rparr>)
     = Fin (fl (57 / 100))
   \<and> Enrolment_Percentage (add_metrics \<lparr>State = Some ''Goa'', Population = Fin 1000, Enrolment = Fin 34\<rparr>)
     = Fin (85 / 2)"
proof -
  let ?r = "\<lparr>State = Some ''Goa'', Population = Fin 1000, Enrolment = Fin 34\<rparr>"
  have e: "(80 :: rat) = fl (1000 * fl (8 / 100))"
    by (simp add: fl_lit_8 fl_expected_1000)
  have g: "(46 :: rat) = fl (80 - 34)"
    by (simp add: fl_gap_1000_34)
  have q: "fl (46 / 80) = 2589569785738035 / 2 ^ 52"
    by (simp add: fl_ratio_1000_34)
  have s: "fl (2589569785738035 / 2 ^ 52 * 100) = 8092405580431359 / 2 ^ 47"
    by (simp add: fl_ratio_1000_34_scaled)
  have k: "rint (8092405580431359 / 2 ^ 47) = 57"
    by (rule rint_unique) simp
  have h: "fl (34 / 80) = 7656119366529843 / 2 ^ 54"
    by (simp add: fl_share_1000_34)
  have h100: "fl (7656119366529843 / 2 ^ 54 * 100) = 85 / 2"
    by (simp add: fl_pct_1000_34)
  have h1000: "fl (85 / 2 * 10) = 425"
    by (simp add: fl_pct_1000_34_scaled)
  have j: "rint 425 = 425"
    using rint_of_int [of 425] by simp
  have P: "fl (85 / 2) = 85 / 2"
    by (simp add: fl_pct_1000_34_rounded)
  have "Gap_Ratio (add_metrics ?r) = Fin (fl (of_int (rint (fl (fl (46 / 80) * 100))) / 100))"
    by (rule add_metrics_fields(3) [OF _ _ _ _ _ _ e g]) simp_all
  moreover have "Enrolment_Percentage (add_metrics ?r)
      = Fin (fl (of_int (rint (fl (fl (fl (34 / 80) * 100) * 10))) / 10))"
    by (rule add_metrics_fields(4) [OF _ _ _ _ _ _ e g]) simp_all
  ultimately show ?thesis
    unfolding q s k h h100 h1000 j by (simp add: P)
qed




lemma zero_population_expected:
  "Expected_Children (add_metrics \<lparr>State = s, Population = Fin 0, Enrolment = Fin t\<rparr>) = Fin 0"
  by (simp add: add_metrics_def Let_def census_row.defs analysed_row.defs)

lemma zero_population_ratio:
  "Gap_Ratio (add_metrics \<lparr>State = s, Population = Fin 0, Enrolment = Fin t\<rparr>)
     = (if t = 0 then NaN else if 0 < t then NInf else PInf)"
proof -
  have r: "Gap_Ratio (add_metrics \<lparr>State = s, Population = Fin 0, Enrolment = Fin t\<rparr>)
      = fround 2 (fdiv (round64 (- t)) (Fin 0))"
    by (simp add: add_metrics_def Let_def census_row.defs analysed_row.defs)
  consider "t = 0" | "0 < t" | "t < 0"
    by linarith
  then show ?thesis
  proof cases
    case 1
    then show ?thesis
      unfolding r by simp
  next
    case 2
    then have "round64 (- t) = NInf \<or> (\<exists>y<0. round64 (- t) = Fin y)"
      by (intro round64_neg) simp
    then have "fdiv (round64 (- t)) (Fin 0) = NInf"
      by auto
    then show ?thesis
      unfolding r using 2 by simp
  next
    case 3
    then have "round64 (- t) = PInf \<or> (\<exists>y>0. round64 (- t) = Fin y)"
      by (intro round64_pos) simp
    then have "fdiv (round64 (- t)) (Fin 0) = PInf"
      by auto
    then show ?thesis
      unfolding r using 3 by simp
  qed
qed

lemma zero_population_percentage:
  "Enrolment_Percentage (add_metrics \<lparr>State = s, Population = Fin 0, Enrolment = Fin t\<rparr>)
     = (if t = 0 then NaN else if 0 < t then PInf else NInf)"
  by (simp add: add_metrics_def Let_def census_row.defs analysed_row.defs)

text \<open>
  Claim C2, as the code has it. With a population of zero the expected value is zero and
  both divisions are divisions by zero. The frame's division does not raise; it yields NaN
  when the enrolment is zero too and an infinity otherwise: minus infinity for the gap ratio
  and plus infinity for the percentage of a positive enrolment. Rounding leaves these values
  as they are, so neither field is the number zero.
\<close>

theorem zero_expected_is_nonfinite:
  "Expected_Children (add_metrics \<lparr>State = s, Population = Fin 0, Enrolment = Fin t\<rparr>) = Fin 0
   \<and> Gap_Ratio (add_metrics \<lparr>State = s, Population = Fin 0, Enrolment = Fin t\<rparr>)
       = (if t = 0 then NaN else if 0 < t then NInf else PInf)
   \<and> Enrolment_Percentage (add_metrics \<lparr>State = s, Population = Fin 0, Enrolment = Fin t\<rparr>)
       = (if t = 0 then NaN else if 0 < t then PInf else NInf)
   \<and> Gap_Ratio (add_metrics \<lparr>State = s, Population = Fin 0, Enrolment = Fin t\<rparr>) \<noteq> Fin 0
   \<and> Enrolment_Percentage (add_metrics \<lparr>State = s, Population = Fin 0, Enrolment = Fin t\<rparr>) \<noteq> Fin 0"
  unfolding zero_population_expected zero_population_ratio zero_population_percentage
  by simp

theorem zero_expected_is_nonfinite_witness:
  "Gap_Ratio (add_metrics \<lparr>State = Some ''Goa'', Population = Fin 0, Enrolment = Fin 0\<rparr>) = NaN
   \<and> Enrolment_Percentage (add_metrics \<lparr>State = Some ''Goa'', Population = Fin 0, Enrolment = Fin 0\<rparr>) = NaN"
  using zero_expected_is_nonfinite [of "Some ''Goa''" 0] by simp

text \<open>
  The claim as stated asks for the not-a-number marker. A zero population with 60 enrolled
  gives minus infinity for the gap ratio and plus infinity for the percentage.
\<close>

theorem zero_expected_gives_infinity:
  "Gap_Ratio (add_metrics \<lparr>State = Some ''Goa'', Population = Fin 0, Enrolment = Fin 60\<rparr>) = NInf
   \<and> Enrolment_Percentage (add_metrics \<lparr>State = Some ''Goa'', Population = Fin 0, Enrolment = Fin 60\<rparr>) = PInf
   \<and> NInf \<noteq> NaN \<and> PInf \<noteq> NaN"
  unfolding zero_population_ratio zero_population_percentage by simp

section \<open>Properties of the grouping\<close>


lemma set_map_filter_fst: "set (List.map_filter fst kvs) = {k. Some k \<in> fst ` set kvs}"
  by (auto simp: List.map_filter_def image_iff) (metis fst_conv option.sel)+



lemma groupby_sum_mset:
  assumes "mset kvs = mset kvs'"
  shows "groupby_sum kvs = groupby_sum kvs'"
proof -
  have s: "set kvs = set kvs'"
    using assms by (rule mset_eq_setD)
  have k: "sort (remdups (List.map_filter fst kvs)) = sort (remdups (List.map_filter fst kvs'))"
  proof -
    have "set (List.map_filter fst kvs) = set (List.map_filter fst kvs')"
      by (simp add: set_map_filter_fst s)
    then show ?thesis
      by (metis sorted_list_of_set_sort_remdups)
  qed
  have v: "sum_list (map snd (filter P kvs)) = sum_list (map snd (filter P kvs'))" for P
  proof -
    have "mset (map snd (filter P kvs)) = mset (map snd (filter P kvs'))"
      using assms by (metis mset_filter mset_map)
    then show ?thesis
      by (metis sum_mset_sum_list)
  qed
  show ?thesis
    unfolding groupby_sum_def k by (simp add: v)
qed

subsection \<open>Sorting by value\<close>










lemma head_all: "int (length xs) \<le> n \<Longrightarrow> head n xs = xs"
  by (simp add: head_def)


subsection \<open>Conservation under grouping\<close>




section \<open>Properties of clean\_data and main\<close>

lemma to_datetime_ok:
  assumes "list_all (\<lambda>c. \<not> date_fails c) cs"
  shows "to_datetime cs = Inr (map parsed cs)"
  using assms
  by (induction cs) (auto simp: date_fails_def parsed_def split: sum.splits)

lemma date_fails_iff: "date_fails c \<longleftrightarrow> (\<exists>s. c = Raw s \<and> strptime_dmY s = None)"
  by (cases c) (auto simp: date_fails_def split: option.splits)

lemma to_datetime_raises:
  assumes "\<not> list_all (\<lambda>c. \<not> date_fails c) cs"
  shows "\<exists>s. to_datetime cs = Inl (ValueError s) \<and> Raw s \<in> set cs \<and> strptime_dmY s = None"
  using assms
proof (induction cs)
  case Nil
  then show ?case by simp
next
  case (Cons c cs)
  show ?case
  proof (cases "date_fails c")
    case True
    then obtain s where "c = Raw s" "strptime_dmY s = None"
      by (auto simp: date_fails_iff)
    then show ?thesis by auto
  next
    case False
    then obtain t where t: "to_datetime_cell c = Inr t"
      by (auto simp: date_fails_def split: sum.splits)
    from False Cons.prems have "\<not> list_all (\<lambda>c. \<not> date_fails c) cs"
      by simp
    from Cons.IH [OF this] obtain s where
      "to_datetime cs = Inl (ValueError s)" "Raw s \<in> set cs" "strptime_dmY s = None"
      by blast
    then show ?thesis using t by auto
  qed
qed

lemma set_dates:
  "map (\<lambda>(r, d). r\<lparr>date := d\<rparr>) (zip rs (map parsed (map date rs)))
     = map (\<lambda>r. r\<lparr>date := parsed (date r)\<rparr>) rs"
  by (induction rs) simp_all

lemma coerce_all:
  assumes "set numeric_cols \<subseteq> set cols"
  shows "fold (\<lambda>col rs. if col \<in> set cols then map (coerce_col col) rs else rs) numeric_cols
           (map (\<lambda>r. r\<lparr>date := parsed (date r)\<rparr>) rs)
         = map cleaned_row rs"
  using assms by (simp add: numeric_cols_def coerce_col_def cleaned_row_def comp_def)

lemma absent_empty_iff:
  "filter (\<lambda>c. c \<notin> set cols) dropna_subset = [] \<longleftrightarrow> set dropna_subset \<subseteq> set cols"
  by (auto simp: filter_empty_conv)

lemma numeric_in_subset: "set numeric_cols \<subseteq> set dropna_subset"
  by (auto simp: dropna_subset_def)

text \<open>The four ways \<open>clean_data\<close> can end, in the order the code reaches them.\<close>

lemma clean_data_no_date:
  assumes "''date'' \<notin> set (map strip (columns df))"
  shows "clean_data df = Inl (KeyError (Label ''date''))"
  using assms by (simp add: clean_data_def Let_def)

lemma clean_data_bad_date:
  assumes "''date'' \<in> set (map strip (columns df))"
    and "\<not> list_all (\<lambda>r. \<not> date_fails (date r)) (rows df)"
  shows "\<exists>s. clean_data df = Inl (ValueError s) \<and> Raw s \<in> date ` set (rows df)
           \<and> strptime_dmY s = None"
proof -
  have "\<not> list_all (\<lambda>c. \<not> date_fails c) (map date (rows df))"
    using assms(2) by (simp add: list_all_iff)
  from to_datetime_raises [OF this] obtain s where
    s: "to_datetime (map date (rows df)) = Inl (ValueError s)"
       "Raw s \<in> set (map date (rows df))" "strptime_dmY s = None"
    by blast
  have "clean_data df = Inl (ValueError s)"
    using assms(1) s(1) by (simp add: clean_data_def Let_def)
  then show ?thesis using s by auto
qed

lemma clean_data_absent:
  assumes "''date'' \<in> set (map strip (columns df))"
    and "list_all (\<lambda>r. \<not> date_fails (date r)) (rows df)"
    and "\<not> set dropna_subset \<subseteq> set (map strip (columns df))"
  shows "clean_data df
       = Inl (KeyError (Labels (filter (\<lambda>c. c \<notin> set (map strip (columns df))) dropna_subset)))"
proof -
  have "list_all (\<lambda>c. \<not> date_fails c) (map date (rows df))"
    using assms(2) by (simp add: list_all_iff)
  then have d: "to_datetime (map date (rows df)) = Inr (map parsed (map date (rows df)))"
    by (rule to_datetime_ok)
  have "filter (\<lambda>c. c \<notin> set (map strip (columns df))) dropna_subset \<noteq> []"
    using assms(3) by (simp only: absent_empty_iff not_False_eq_True)
  then show ?thesis
    using assms(1) d by (simp add: clean_data_def Let_def)
qed

lemma clean_data_ok:
  assumes "''date'' \<in> set (map strip (columns df))"
    and "list_all (\<lambda>r. \<not> date_fails (date r)) (rows df)"
    and "set dropna_subset \<subseteq> set (map strip (columns df))"
  shows "clean_data df
       = Inr \<lparr>columns = map strip (columns df),
              rows = filter (\<lambda>r. \<not> all_missing r) (map cleaned_row (rows df))\<rparr>"
proof -
  have "list_all (\<lambda>c. \<not> date_fails c) (map date (rows df))"
    using assms(2) by (simp add: list_all_iff)
  then have d: "to_datetime (map date (rows df)) = Inr (map parsed (map date (rows df)))"
    by (rule to_datetime_ok)
  have a: "filter (\<lambda>c. c \<notin> set (map strip (columns df))) dropna_subset = []"
    using assms(3) by (simp only: absent_empty_iff)
  have n: "set numeric_cols \<subseteq> set (map strip (columns df))"
    using assms(3) numeric_in_subset by blast
  show ?thesis
    unfolding clean_data_def Let_def
    using assms(1) by (simp only: d a set_dates coerce_all [OF n] sum.case if_False if_True
        not_True_eq_False not_not simp_thms)
qed

lemma clean_data_Inr:
  assumes "clean_data df = Inr df'"
  shows "''date'' \<in> set (map strip (columns df))"
    and "list_all (\<lambda>r. \<not> date_fails (date r)) (rows df)"
    and "set dropna_subset \<subseteq> set (map strip (columns df))"
    and "df' = \<lparr>columns = map strip (columns df),
              rows = filter (\<lambda>r. \<not> all_missing r) (map cleaned_row (rows df))\<rparr>"
proof -
  show 1: "''date'' \<in> set (map strip (columns df))"
    using assms clean_data_no_date [of df] by auto
  show 2: "list_all (\<lambda>r. \<not> date_fails (date r)) (rows df)"
    using assms clean_data_bad_date [OF 1] by auto
  show 3: "set dropna_subset \<subseteq> set (map strip (columns df))"
    using assms clean_data_absent [OF 1 2] by auto
  show "df' = \<lparr>columns = map strip (columns df),
              rows = filter (\<lambda>r. \<not> all_missing r) (map cleaned_row (rows df))\<rparr>"
    using assms clean_data_ok [OF 1 2 3] by simp
qed

text \<open>
  Claim C4, as the code has it. When the frame has a date column and some row's date does
  not match the format, \<open>clean_data\<close> raises \<^verbatim>\<open>ValueError\<close> for an offending value: the
  whole call fails and no row is returned.
\<close>

theorem unparsable_date_fails_batch:
  assumes "''date'' \<in> set (map strip (columns df))"
    and "r \<in> set (rows df)"
    and "date r = Raw s"
    and "strptime_dmY s = None"
  shows "\<exists>t. clean_data df = Inl (ValueError t) \<and> strptime_dmY t = None"
proof -
  have "date_fails (date r)"
    using assms(3,4) by (simp add: date_fails_iff)
  then have "\<not> list_all (\<lambda>r. \<not> date_fails (date r)) (rows df)"
    using assms(2) by (auto simp: list_all_iff)
  from clean_data_bad_date [OF assms(1) this] show ?thesis
    by blast
qed

theorem unparsable_date_fails_batch_witness:
  "''date'' \<in> set (map strip (columns bad_date_frame))
   \<and> rows bad_date_frame ! 1 \<in> set (rows bad_date_frame)
   \<and> date (rows bad_date_frame ! 1) = Raw ''2024/02/01''
   \<and> strptime_dmY ''2024/02/01'' = None
   \<and> (\<exists>t. clean_data bad_date_frame = Inl (ValueError t) \<and> strptime_dmY t = None)"
proof -
  have h1: "''date'' \<in> set (map strip (columns bad_date_frame))"
    by code_simp
  have h2: "rows bad_date_frame ! 1 \<in> set (rows bad_date_frame)"
    by (simp add: bad_date_frame_def)
  have h3: "date (rows bad_date_frame ! 1) = Raw ''2024/02/01''"
    by (simp add: bad_date_frame_def)
  have h4: "strptime_dmY ''2024/02/01'' = None"
    by code_simp
  from unparsable_date_fails_batch [OF h1 h2 h3 h4] h1 h2 h3 h4 show ?thesis
    by blast
qed

text \<open>
  The claim as stated fails: the first row of this frame has a well-formed date and the
  second has not, and the call returns no frame at all.
\<close>

theorem bad_date_is_fatal:
  "clean_data bad_date_frame = Inl (ValueError ''2024/02/01'')
   \<and> strptime_dmY ''01-02-2024'' = Some (2024, 2, 1)"
  by code_simp

text \<open>
  Claim C5, as the code has it. After a successful cleaning each age cell has been coerced
  on its own; a cell that did not coerce is missing and adds nothing to the row's total.
  A row is dropped if and only if its state, its district, its pincode and its three coerced
  age cells are all missing: the three age cells alone do not decide it.
\<close>

theorem bucket_coercion_and_row_drop:
  assumes "clean_data df = Inr df'"
  shows "rows df' = filter (\<lambda>r. \<not> all_missing r) (map cleaned_row (rows df))
     \<and> (\<forall>r \<in> set (rows df).
          age_0_5 (cleaned_row r) = to_numeric (age_0_5 r)
        \<and> age_5_17 (cleaned_row r) = to_numeric (age_5_17 r)
        \<and> age_18_greater (cleaned_row r) = to_numeric (age_18_greater r)
        \<and> row_total (cleaned_row r)
            = (\<Sum>c\<leftarrow>[age_0_5 r, age_5_17 r, age_18_greater r].
                 case to_numeric c of Num n \<Rightarrow> n | _ \<Rightarrow> 0)
        \<and> (cleaned_row r \<in> set (rows df') \<longleftrightarrow>
             \<not> (state r = None \<and> district r = None \<and> pincode r = None
                \<and> to_numeric (age_0_5 r) = NA \<and> to_numeric (age_5_17 r) = NA
                \<and> to_numeric (age_18_greater r) = NA)))"
proof -
  have rows: "rows df' = filter (\<lambda>r. \<not> all_missing r) (map cleaned_row (rows df))"
    using clean_data_Inr(4) [OF assms] by simp
  have v: "num_value c = (case c of Num n \<Rightarrow> n | _ \<Rightarrow> 0)" for c
    by (cases c) simp_all
  have m: "all_missing (cleaned_row r) \<longleftrightarrow>
      (state r = None \<and> district r = None \<and> pincode r = None
       \<and> to_numeric (age_0_5 r) = NA \<and> to_numeric (age_5_17 r) = NA
       \<and> to_numeric (age_18_greater r) = NA)" for r
    by (simp add: all_missing_def cleaned_row_def)
  have k: "cleaned_row r \<in> set (rows df') \<longleftrightarrow> \<not> all_missing (cleaned_row r)"
    if "r \<in> set (rows df)" for r
    using that by (auto simp: rows)
  have t: "row_total (cleaned_row r)
      = (\<Sum>c\<leftarrow>[age_0_5 r, age_5_17 r, age_18_greater r]. case to_numeric c of Num n \<Rightarrow> n | _ \<Rightarrow> 0)" for r
    by (simp add: row_total_def cleaned_row_def v)
  have c: "age_0_5 (cleaned_row r) = to_numeric (age_0_5 r)"
      "age_5_17 (cleaned_row r) = to_numeric (age_5_17 r)"
      "age_18_greater (cleaned_row r) = to_numeric (age_18_greater r)" for r
    by (simp_all add: cleaned_row_def)
  show ?thesis
    using rows k t c unfolding m by blast
qed

theorem bucket_coercion_and_row_drop_witness:
  "clean_data no_bucket_frame
     = Inr \<lparr>columns = full_header,
            rows = [\<lparr>date = Timestamp 2024 2 1, state = Some ''A'', district = None, pincode = None,
                     age_0_5 = NA, age_5_17 = NA, age_18_greater = NA\<rparr>]\<rparr>
   \<and> hd (rows no_bucket_frame) \<in> set (rows no_bucket_frame)
   \<and> row_total (cleaned_row (hd (rows no_bucket_frame))) = 0
   \<and> cleaned_row (hd (rows no_bucket_frame))
       \<in> set [\<lparr>date = Timestamp 2024 2 1, state = Some ''A'', district = None, pincode = None,
                 age_0_5 = NA, age_5_17 = NA, age_18_greater = NA\<rparr>]"
proof -
  let ?out = "\<lparr>columns = full_header,
            rows = [\<lparr>date = Timestamp 2024 2 1, state = Some ''A'', district = None, pincode = None,
                     age_0_5 = NA, age_5_17 = NA, age_18_greater = NA\<rparr>]\<rparr>"
  have h: "clean_data no_bucket_frame = Inr ?out"
    by code_simp
  have i: "hd (rows no_bucket_frame) \<in> set (rows no_bucket_frame)"
    by (simp add: no_bucket_frame_def)
  have n: "parse_int ''x'' = None" "parse_int ''n/a'' = None" "parse_int ''-'' = None"
    by code_simp+
  have s: "state (hd (rows no_bucket_frame)) = Some ''A''"
      "age_0_5 (hd (rows no_bucket_frame)) = Str ''x''"
      "age_5_17 (hd (rows no_bucket_frame)) = Str ''n/a''"
      "age_18_greater (hd (rows no_bucket_frame)) = Str ''-''"
    by (simp_all add: no_bucket_frame_def)
  from bucket_coercion_and_row_drop [OF h] i
  have "row_total (cleaned_row (hd (rows no_bucket_frame)))
          = (\<Sum>c\<leftarrow>[age_0_5 (hd (rows no_bucket_frame)), age_5_17 (hd (rows no_bucket_frame)),
                 age_18_greater (hd (rows no_bucket_frame))].
                 case to_numeric c of Num n \<Rightarrow> n | _ \<Rightarrow> 0)"
    and "cleaned_row (hd (rows no_bucket_frame)) \<in> set (rows ?out) \<longleftrightarrow>
             \<not> (state (hd (rows no_bucket_frame)) = None \<and> district (hd (rows no_bucket_frame)) = None
                \<and> pincode (hd (rows no_bucket_frame)) = None
                \<and> to_numeric (age_0_5 (hd (rows no_bucket_frame))) = NA
                \<and> to_numeric (age_5_17 (hd (rows no_bucket_frame))) = NA
                \<and> to_numeric (age_18_greater (hd (rows no_bucket_frame))) = NA)"
    by blast+
  then show ?thesis
    using h i by (simp add: s n)
qed

text \<open>
  The claim as stated fails: none of the three age cells of this row coerces, and the row is
  kept, because its state is present.
\<close>

theorem row_without_buckets_is_kept:
  "to_numeric (Str ''x'') = NA \<and> to_numeric (Str ''n/a'') = NA \<and> to_numeric (Str ''-'') = NA
   \<and> clean_data
        \<lparr>columns = full_header,
         rows = [\<lparr>date = Raw ''01-02-2024'', state = Some ''A'', district = None, pincode = None,
                  age_0_5 = Str ''x'', age_5_17 = Str ''n/a'', age_18_greater = Str ''-''\<rparr>]\<rparr>
     = Inr \<lparr>columns = full_header,
            rows = [\<lparr>date = Timestamp 2024 2 1, state = Some ''A'', district = None, pincode = None,
                     age_0_5 = NA, age_5_17 = NA, age_18_greater = NA\<rparr>]\<rparr>"
  by code_simp

text \<open>
  Claim C6, as the code has it. A successful cleaning returns the frame and nothing else.
  The number of rows it dropped can only be recovered as the difference of the two lengths,
  and it counts the rows whose six cells of the subset are all missing.
\<close>

theorem cleaning_returns_frame_only:
  assumes "clean_data df = Inr df'"
  shows "columns df' = map strip (columns df)
       \<and> length (rows df') + length (filter all_missing (map cleaned_row (rows df)))
           = length (rows df)"
proof -
  have d: "df' = \<lparr>columns = map strip (columns df),
              rows = filter (\<lambda>r. \<not> all_missing r) (map cleaned_row (rows df))\<rparr>"
    using assms by (rule clean_data_Inr(4))
  have "length (filter (\<lambda>r. \<not> all_missing r) xs) + length (filter all_missing xs) = length xs"
    for xs :: "enrolment_row list"
    by (induction xs) simp_all
  from this [of "map cleaned_row (rows df)"] show ?thesis
    by (simp add: d)
qed

theorem cleaning_returns_frame_only_witness:
  "clean_data region_frame = Inr region_frame
   \<and> length (rows region_frame) = 2
   \<and> length (filter all_missing (map cleaned_row (rows region_frame))) = 0
   \<and> groupby_total state (rows region_frame) = [(''A'', 5)]
   \<and> state_totals stable_argsort (rows region_frame) = [(''A'', 5)]"
proof -
  have h: "clean_data region_frame = Inr region_frame"
    by code_simp
  have l: "length (rows region_frame) = 2"
    by (simp add: region_frame_def region_rows_def)
  have t: "groupby_total state (rows region_frame) = [(''A'', 5)]"
      "state_totals stable_argsort (rows region_frame) = [(''A'', 5)]"
    by code_simp+
  from cleaning_returns_frame_only [OF h] h l t show ?thesis
    by simp
qed

text \<open>
  The claim as stated fails on its own example: the row with the empty region is still in
  the cleaned frame, so the two lengths are equal and the count of dropped rows that can be
  derived from them is 0, not 1.
\<close>

theorem example_drops_no_row:
  "clean_data region_frame = Inr region_frame
   \<and> rows region_frame = region_rows
   \<and> length region_rows = 2
   \<and> state (region_rows ! 1) = None"
proof -
  have "clean_data region_frame = Inr region_frame"
    by code_simp
  then show ?thesis
    by (simp add: region_frame_def region_rows_def)
qed

lemma to_datetime_first_failure:
  assumes "\<not> list_all (\<lambda>c. \<not> date_fails c) cs"
  shows "\<exists>s. to_datetime cs = Inl (ValueError s) \<and> find date_fails cs = Some (Raw s)"
  using assms
proof (induction cs)
  case Nil
  then show ?case by simp
next
  case (Cons c cs)
  show ?case
  proof (cases "date_fails c")
    case True
    then obtain s where "c = Raw s" "strptime_dmY s = None"
      by (auto simp: date_fails_iff)
    then show ?thesis using True by auto
  next
    case False
    then obtain t where t: "to_datetime_cell c = Inr t"
      by (auto simp: date_fails_def split: sum.splits)
    from False Cons.prems have "\<not> list_all (\<lambda>c. \<not> date_fails c) cs"
      by simp
    from Cons.IH [OF this] obtain s where
      "to_datetime cs = Inl (ValueError s)" "find date_fails cs = Some (Raw s)"
      by blast
    then show ?thesis using t False by auto
  qed
qed

lemma clean_data_first_bad_date:
  assumes "''date'' \<in> set (map strip (columns df))"
    and "\<not> list_all (\<lambda>r. \<not> date_fails (date r)) (rows df)"
  shows "\<exists>s. clean_data df = Inl (ValueError s)
           \<and> find date_fails (map date (rows df)) = Some (Raw s)"
proof -
  have "\<not> list_all (\<lambda>c. \<not> date_fails c) (map date (rows df))"
    using assms(2) by (simp add: list_all_iff)
  from to_datetime_first_failure [OF this] obtain s where
    s: "to_datetime (map date (rows df)) = Inl (ValueError s)"
       "find date_fails (map date (rows df)) = Some (Raw s)"
    by blast
  have "clean_data df = Inl (ValueError s)"
    using assms(1) s(1) by (simp add: clean_data_def Let_def)
  then show ?thesis using s(2) by blast
qed

lemma main_of_failure:
  assumes "clean_data df = Inl e"
  shows "main (Inr df) = except_Exception e"
  using assms by (simp add: main_def)

text \<open>
  Claim C7, as the code has it. When the header lacks the date column or a column of the
  subset, \<open>clean_data\<close> raises and nothing is aggregated. Without a date column the
  exception is the \<^verbatim>\<open>KeyError\<close> for \<^verbatim>\<open>'date'\<close>. With one, it is the \<^verbatim>\<open>ValueError\<close> for the
  first date of the column that does not parse, if there is one; otherwise it is the
  \<^verbatim>\<open>KeyError\<close> that lists exactly the labels of the subset the header lacks, the column in
  question among them. In every case \<open>main\<close> hands the exception to its single
  \<^verbatim>\<open>except Exception\<close> handler.
\<close>

theorem absent_column_reaches_catch_all:
  assumes "c = ''date'' \<or> c \<in> set dropna_subset"
    and "c \<notin> set (map strip (columns df))"
  shows "\<exists>e. clean_data df = Inl e
           \<and> main (Inr df) = except_Exception e
           \<and> main (Inr df) = An_error_occurred e
           \<and> (if ''date'' \<notin> set (map strip (columns df)) then e = KeyError (Label ''date'')
               else if list_all (\<lambda>r. \<not> date_fails (date r)) (rows df)
               then e = KeyError (Labels (filter (\<lambda>l. l \<notin> set (map strip (columns df))) dropna_subset))
                    \<and> c \<in> set (filter (\<lambda>l. l \<notin> set (map strip (columns df))) dropna_subset)
               else \<exists>s. e = ValueError s
                    \<and> find date_fails (map date (rows df)) = Some (Raw s))"
proof -
  let ?cols = "set (map strip (columns df))"
  let ?absent = "filter (\<lambda>l. l \<notin> ?cols) dropna_subset"
  have "\<exists>e. clean_data df = Inl e
           \<and> (if ''date'' \<notin> ?cols then e = KeyError (Label ''date'')
               else if list_all (\<lambda>r. \<not> date_fails (date r)) (rows df)
               then e = KeyError (Labels ?absent) \<and> c \<in> set ?absent
               else \<exists>s. e = ValueError s
                    \<and> find date_fails (map date (rows df)) = Some (Raw s))"
  proof (cases "''date'' \<in> ?cols")
    case False
    then show ?thesis
      using clean_data_no_date [of df] by simp
  next
    case date: True
    show ?thesis
    proof (cases "list_all (\<lambda>r. \<not> date_fails (date r)) (rows df)")
      case False
      from clean_data_first_bad_date [OF date False] show ?thesis
        using date False by auto
    next
      case True
      have c: "c \<in> set dropna_subset"
        using assms date by auto
      then have "\<not> set dropna_subset \<subseteq> ?cols"
        using assms(2) by auto
      from clean_data_absent [OF date True this] show ?thesis
        using date True c assms(2) by simp
    qed
  qed
  then obtain e where e: "clean_data df = Inl e"
     "if ''date'' \<notin> ?cols then e = KeyError (Label ''date'')
      else if list_all (\<lambda>r. \<not> date_fails (date r)) (rows df)
      then e = KeyError (Labels ?absent) \<and> c \<in> set ?absent
      else \<exists>s. e = ValueError s \<and> find date_fails (map date (rows df)) = Some (Raw s)"
    by blast
  have "main (Inr df) = except_Exception e"
    using e(1) by (rule main_of_failure)
  then show ?thesis
    using e by (auto simp: except_Exception_def)
qed

theorem absent_column_reaches_catch_all_witness:
  "(''age_0_5'' = ''date'' \<or> ''age_0_5'' \<in> set dropna_subset)
   \<and> ''age_0_5'' \<notin> set (map strip (columns missing_column_frame))
   \<and> ''date'' \<in> set (map strip (columns missing_column_frame))
   \<and> list_all (\<lambda>r. \<not> date_fails (date r)) (rows missing_column_frame)
   \<and> filter (\<lambda>l. l \<notin> set (map strip (columns missing_column_frame))) dropna_subset = [''age_0_5'']
   \<and> clean_data missing_column_frame = Inl (KeyError (Labels [''age_0_5'']))
   \<and> main (Inr missing_column_frame) = An_error_occurred (KeyError (Labels [''age_0_5'']))"
proof -
  have h1: "''age_0_5'' = ''date'' \<or> ''age_0_5'' \<in> set dropna_subset"
    by (simp add: dropna_subset_def numeric_cols_def)
  have h2: "''age_0_5'' \<notin> set (map strip (columns missing_column_frame))"
    by code_simp
  have h3: "''date'' \<in> set (map strip (columns missing_column_frame))"
    by code_simp
  have h4: "list_all (\<lambda>r. \<not> date_fails (date r)) (rows missing_column_frame)"
    by code_simp
  have h5: "filter (\<lambda>l. l \<notin> set (map strip (columns missing_column_frame))) dropna_subset = [''age_0_5'']"
    by code_simp
  from absent_column_reaches_catch_all [OF h1 h2] obtain e where
    e: "clean_data missing_column_frame = Inl e"
       "main (Inr missing_column_frame) = An_error_occurred e"
       "e = KeyError (Labels (filter (\<lambda>l. l \<notin> set (map strip (columns missing_column_frame))) dropna_subset))"
    using h3 h4 by auto
  then show ?thesis
    using h1 h2 h3 h4 h5 by simp
qed

text \<open>
  The claim as stated fails in its last part: the missing column is reported by the
  catch-all handler, which is also the handler that reports a date that does not parse.
\<close>

theorem missing_column_reported_by_catch_all:
  "main (Inr missing_column_frame) = except_Exception (KeyError (Labels [''age_0_5'']))
   \<and> main (Inr bad_date_frame) = except_Exception (ValueError ''2024/02/01'')
   \<and> except_Exception (KeyError (Labels [''age_0_5''])) = An_error_occurred (KeyError (Labels [''age_0_5'']))"
  by code_simp

section \<open>Properties of the rolling mean\<close>












section \<open>Properties of the top states\<close>






end
